theory Spec2Isabelle
  imports Main "HOL-Library.Sublist"
begin

section \<open>Strings as the source uses them\<close>

text \<open>
  Python strings are modelled as \<^typ>\<open>string\<close>, one \<^typ>\<open>char\<close> per code point; the
  model covers ASCII text. \<open>str.isspace\<close> on ASCII accepts the code points 9 to 13 and
  28 to 32; \<open>str.lower\<close> maps the letters A to Z to a to z and leaves every other
  character alone; \<open>a in b\<close> on strings is the substring test.
\<close>

definition py_isspace :: "char \<Rightarrow> bool" where
  "py_isspace c =
     (let n = (of_char c :: nat) in (9 \<le> n \<and> n \<le> 13) \<or> (28 \<le> n \<and> n \<le> 32))"

definition lower_char :: "char \<Rightarrow> char" where
  "lower_char c =
     (case map_of (zip ''ABCDEFGHIJKLMNOPQRSTUVWXYZ'' ''abcdefghijklmnopqrstuvwxyz'') c of
        None \<Rightarrow> c
      | Some d \<Rightarrow> d)"

definition lower :: "string \<Rightarrow> string" where
  "lower s = map lower_char s"

definition strip :: "string \<Rightarrow> string" where
  "strip s = rev (dropWhile py_isspace (rev (dropWhile py_isspace s)))"

fun py_in :: "string \<Rightarrow> string \<Rightarrow> bool" where
  "py_in needle [] = (needle = [])"
| "py_in needle (h # hs) = (prefix needle (h # hs) \<or> py_in needle hs)"

section \<open>The element index and the field locator\<close>

text \<open>
  A DOM element of the selector map, as far as the core reads it: its \<open>xpath\<close> and the text
  \<open>get_all_text_till_next_clickable_element(max_depth=0)\<close> returns for it. The selector map
  is a Python dict from highlight index to element; its \<open>items()\<close> come in insertion
  order, so it is an association list.
\<close>

record dom_el =
  xpath :: string
  all_text :: string

type_synonym selector_map = "(int \<times> dom_el) list"

text \<open>
  \<open>find_highlight_index_for_field\<close>: the \<open>for idx, dom_el in state.selector_map.items()\<close>
  loop, returning at the first element that passes the test and \<open>None\<close> after the loop.
\<close>

fun find_highlight_index_for_field :: "selector_map \<Rightarrow> string \<Rightarrow> string \<Rightarrow> int option" where
  "find_highlight_index_for_field [] field_id label = None"
| "find_highlight_index_for_field ((idx, el) # rest) field_id label =
     (let text_repr = lower (all_text el) in
      if py_in (lower field_id) (lower (xpath el)) \<or> py_in (lower label) text_repr
      then Some idx
      else find_highlight_index_for_field rest field_id label)"

text \<open>
  The locator's contract in the words of the specification: an entry matches a field when
  the field's id occurs, ignoring case, inside the entry's path, or the field's label
  occurs, ignoring case, inside the entry's rendered text.
\<close>

definition contains_ignoring_case :: "string \<Rightarrow> string \<Rightarrow> bool" where
  "contains_ignoring_case hay needle = sublist (lower needle) (lower hay)"

definition field_matches :: "string \<Rightarrow> string \<Rightarrow> dom_el \<Rightarrow> bool" where
  "field_matches field_id label el =
     (contains_ignoring_case (xpath el) field_id \<or> contains_ignoring_case (all_text el) label)"

section \<open>Action results\<close>

text \<open>
  \<open>ActionResult\<close> of the browser library, with the three fields the core sets.
  \<open>ActionResult(error=msg)\<close> leaves the content empty, and \<open>if result.error\<close> is
  Python's truth value of an optional string.
\<close>

record action_result =
  extracted_content :: "string option"
  error :: "string option"
  include_in_memory :: bool

definition truthy :: "string option \<Rightarrow> bool" where
  "truthy v = (case v of None \<Rightarrow> False | Some s \<Rightarrow> s \<noteq> [])"

definition error_result :: "string \<Rightarrow> action_result" where
  "error_result msg = \<lparr>extracted_content = None, error = Some msg, include_in_memory = False\<rparr>"

definition content_result :: "string \<Rightarrow> bool \<Rightarrow> action_result" where
  "content_result msg mem = \<lparr>extracted_content = Some msg, error = None, include_in_memory = mem\<rparr>"

section \<open>Login credentials and the login flow\<close>

text \<open>
  \<open>login_credentials_data\<close> is a dict from site name to a dict of strings, in insertion
  order. \<open>json.dumps\<close> and \<open>json.loads\<close> belong to the standard library and are
  parameters of the model. The f-string of the unknown-site message prints the list of
  keys; \<open>repr_keys\<close> writes it as Python does for keys without quotes, backslashes or
  control characters. The dict comprehension of \<open>credentials_lower\<close> keeps the last
  entry among keys with the same lower case. The sleeps between page actions have no
  effect on results and are left out.
\<close>

definition sq :: string where
  "sq = [CHR 0x27]"

type_synonym py_dict = "(string \<times> string) list"
type_synonym credentials = "(string \<times> py_dict) list"

definition dict_get :: "py_dict \<Rightarrow> string \<Rightarrow> string \<Rightarrow> string" where
  "dict_get d k dflt = (case map_of d k of None \<Rightarrow> dflt | Some v \<Rightarrow> v)"

text \<open>
  A required field as discovery reports it: a JSON object with the keys \<open>id\<close> and
  \<open>type\<close> and, possibly, \<open>label\<close>. The parsed discovery content is a dict whose
  values are lists of such fields. \<open>json.loads\<close> is typed by what the caller reads from
  its result: the credentials dict in the login flow, the discovery dict in the form loop;
  \<open>None\<close> stands for the exception it raises on text that does not parse.
\<close>

record field_info =
  info_id :: string
  info_type :: string
  info_label :: "string option"

type_synonym unfilled_data = "(string \<times> field_info list) list"

record json_codec =
  json_dumps :: "py_dict \<Rightarrow> string"
  json_loads :: "string \<Rightarrow> py_dict option"
  json_loads_unfilled :: "string \<Rightarrow> unfilled_data option"

fun join :: "string \<Rightarrow> string list \<Rightarrow> string" where
  "join sep [] = []"
| "join sep [x] = x"
| "join sep (x # y # ys) = x @ sep @ join sep (y # ys)"

definition repr_keys :: "string list \<Rightarrow> string" where
  "repr_keys ks = ''['' @ join '', '' (map (\<lambda>k. sq @ k @ sq) ks) @ '']''"

definition credentials_lower :: "credentials \<Rightarrow> string \<Rightarrow> py_dict option" where
  "credentials_lower data = map_of (rev (map (\<lambda>(k, v). (lower k, v)) data))"

definition get_site_login_credentials ::
  "json_codec \<Rightarrow> credentials \<Rightarrow> string \<Rightarrow> action_result \<times> string list" where
  "get_site_login_credentials codec login_credentials_data site_name =
     (let site_name_lower = lower (strip site_name) in
      case credentials_lower login_credentials_data site_name_lower of
        Some creds \<Rightarrow>
          (let extracted = [(''username'', dict_get creds ''username'' []),
                            (''password'', dict_get creds ''password'' [])]
           in (content_result (json_dumps codec extracted) False, []))
      | None \<Rightarrow>
          (let msg = ''No login credentials found for site '' @ sq @ site_name @ sq
                     @ '' (available sites: '' @ repr_keys (map fst login_credentials_data) @ '')''
           in (error_result msg, [msg])))"

text \<open>
  The page of the login flow. Each page action either returns or raises; an action that
  raises gives \<open>Some\<close> of the exception's text. \<open>run_steps\<close> is a \<open>try\<close> block of
  page actions in sequence: it performs them in order up to the first one that raises.
  A run of the flow gives its result, the lines it logs and the page actions it performs.
\<close>

datatype page_event = Goto string | WaitForLoadState | Fill string string | Click string

record login_page =
  page_url :: string
  page_goto :: "string \<Rightarrow> string option"
  page_wait_for_load_state :: "string option"
  page_fill :: "string \<Rightarrow> string \<Rightarrow> string option"
  page_click :: "string \<Rightarrow> string option"

fun run_steps :: "('e \<times> string option) list \<Rightarrow> 'e list \<times> string option" where
  "run_steps [] = ([], None)"
| "run_steps ((ev, raised) # rest) =
     (case raised of
        Some e \<Rightarrow> ([ev], Some e)
      | None \<Rightarrow> (case run_steps rest of (evs, r) \<Rightarrow> (ev # evs, r)))"

record login_run =
  outcome :: action_result
  log :: "string list"
  events :: "page_event list"

definition site_login ::
  "login_page \<Rightarrow> string list \<Rightarrow> bool \<Rightarrow> string \<Rightarrow> string \<Rightarrow> string \<Rightarrow> string \<Rightarrow> string
     \<Rightarrow> string \<Rightarrow> string \<Rightarrow> login_run" where
  "site_login page log0 on_site login_url username_sel password_sel sign_in_btn_sel site
      username password =
     (case run_steps
        ((if \<not> on_site then [(Goto login_url, page_goto page login_url)] else [])
         @ [(WaitForLoadState, page_wait_for_load_state page),
            (Fill username_sel username, page_fill page username_sel username),
            (Fill password_sel password, page_fill page password_sel password),
            (Click sign_in_btn_sel, page_click page sign_in_btn_sel)]) of
        (evs, None) \<Rightarrow>
          (let msg = ''Login attempt complete for '' @ site @ '' user '' @ username in
           \<lparr>outcome = content_result msg True,
            log = log0 @ [''Clicked sign in on '' @ site @ ''.'', msg],
            events = evs\<rparr>)
      | (evs, Some e) \<Rightarrow>
          (let msg = ''Failed '' @ site @ '' login flow: '' @ e in
           \<lparr>outcome = error_result msg, log = log0 @ [msg], events = evs\<rparr>))"

definition perform_login_flow ::
  "json_codec \<Rightarrow> credentials \<Rightarrow> login_page \<Rightarrow> string \<Rightarrow> login_run" where
  "perform_login_flow codec login_credentials_data page site_name =
     (let site_name_lower = strip (lower site_name);
          (creds_result, log0) = get_site_login_credentials codec login_credentials_data site_name_lower
      in
      if truthy (error creds_result) then \<lparr>outcome = creds_result, log = log0, events = []\<rparr>
      else
        case (case extracted_content creds_result of None \<Rightarrow> None | Some s \<Rightarrow> json_loads codec s) of
          None \<Rightarrow>
            (let msg = ''Failed to parse credentials for site '' @ site_name_lower @ ''.'' in
             \<lparr>outcome = error_result msg, log = log0 @ [msg], events = []\<rparr>)
        | Some creds \<Rightarrow>
            (let username = dict_get creds ''username'' [];
                 password = dict_get creds ''password'' []
             in
             if username = [] \<or> password = [] then
               (let msg = ''Credentials incomplete for site '' @ site_name_lower in
                \<lparr>outcome = error_result msg, log = log0 @ [msg], events = []\<rparr>)
             else
               (let log1 = log0 @ [''Attempting to login to '' @ site_name_lower
                                   @ '' with user '' @ sq @ username @ sq]
                in
                if site_name_lower = ''linkedin'' then
                  site_login page log1 (py_in ''linkedin.com'' (page_url page))
                    ''https://www.linkedin.com/login''
                    ''input#username'' ''input#password'' ''button[type=\"submit\"]''
                    ''LinkedIn'' username password
                else if site_name_lower = ''indeed'' then
                  site_login page log1 (py_in ''indeed.com'' (lower (page_url page)))
                    ''https://secure.indeed.com/account/login''
                    ''input#login-email-input'' ''input#login-password-input''
                    ''button[data-testid=\"login-submit-button\"]''
                    ''Indeed'' username password
                else
                  (let msg = ''No specialized login flow for site: '' @ site_name_lower in
                   \<lparr>outcome = error_result msg, log = log1 @ [msg], events = []\<rparr>))))"

section \<open>Text input with retries\<close>

text \<open>
  \<open>str(n)\<close> of a Python int, for the f-strings of the result messages.
\<close>

definition digit_char :: "nat \<Rightarrow> char" where
  "digit_char d = ''0123456789'' ! d"

function str_nat :: "nat \<Rightarrow> string" where
  "str_nat n = (if n < 10 then [digit_char n] else str_nat (n div 10) @ [digit_char (n mod 10)])"
  by pat_completeness auto
termination
  by (relation "measure id") auto

definition str_int :: "int \<Rightarrow> string" where
  "str_int i = (if i < 0 then ''-'' @ str_nat (nat (- i)) else str_nat (nat i))"

text \<open>
  The page as \<open>input_text_with_retry\<close> uses it. On attempt \<open>k\<close> the four calls inside the
  \<open>try\<close> block are \<open>browser.get_locate_element\<close> (raises, returns no element, or returns
  one), the script that clears the value, \<open>element.type\<close> and the script that reads the
  value back (each returns or raises; \<open>Inl\<close> and \<open>Some\<close> carry the exception's text, and a
  value read back that is not a string makes \<open>strip\<close> raise). An attempt either returns
  from the function or falls through to the next iteration. The run records every call
  made, tagged with its attempt number. The sleeps and the log lines of this action are
  left out. \<open>max_retries\<close> is a Python int, with default 3.
\<close>

datatype field_event = LocateElement | ClearValue | TypeValue string | ReadValue

record text_page =
  locate_element :: "dom_el \<Rightarrow> nat \<Rightarrow> string + bool"
  clear_value :: "nat \<Rightarrow> string option"
  type_value :: "nat \<Rightarrow> string \<Rightarrow> string option"
  read_value :: "nat \<Rightarrow> string + string"

datatype attempt_end = Return action_result | NextAttempt

definition on_exception :: "int \<Rightarrow> nat \<Rightarrow> string \<Rightarrow> attempt_end" where
  "on_exception max_retries attempt e =
     (if int attempt = max_retries - 1 then Return (error_result e) else NextAttempt)"

definition attempt_body ::
  "text_page \<Rightarrow> dom_el \<Rightarrow> int \<Rightarrow> string \<Rightarrow> int \<Rightarrow> nat \<Rightarrow> attempt_end \<times> field_event list" where
  "attempt_body page dom_element index text max_retries attempt =
     (case locate_element page dom_element attempt of
        Inl e \<Rightarrow> (on_exception max_retries attempt e, [LocateElement])
      | Inr False \<Rightarrow>
          (if int attempt = max_retries - 1
           then (Return (error_result (''Could not locate text field at index '' @ str_int index)),
                 [LocateElement])
           else (NextAttempt, [LocateElement]))
      | Inr True \<Rightarrow>
          (case clear_value page attempt of
             Some e \<Rightarrow> (on_exception max_retries attempt e, [LocateElement, ClearValue])
           | None \<Rightarrow>
               (case type_value page attempt text of
                  Some e \<Rightarrow>
                    (on_exception max_retries attempt e,
                     [LocateElement, ClearValue, TypeValue text])
                | None \<Rightarrow>
                    (case read_value page attempt of
                       Inl e \<Rightarrow>
                         (on_exception max_retries attempt e,
                          [LocateElement, ClearValue, TypeValue text, ReadValue])
                     | Inr typed_value \<Rightarrow>
                         (if strip typed_value = strip text
                          then Return (content_result
                                 (''Successfully input '' @ sq @ text @ sq @ '' into field ''
                                  @ str_int index) True)
                          else NextAttempt,
                          [LocateElement, ClearValue, TypeValue text, ReadValue])))))"

record text_run =
  result :: action_result
  field_events :: "(nat \<times> field_event) list"

function retry_loop ::
  "text_page \<Rightarrow> dom_el \<Rightarrow> int \<Rightarrow> string \<Rightarrow> int \<Rightarrow> nat \<Rightarrow> text_run" where
  "retry_loop page dom_element index text max_retries attempt =
     (if int attempt < max_retries then
        (case attempt_body page dom_element index text max_retries attempt of
           (Return r, evs) \<Rightarrow> \<lparr>result = r, field_events = map (Pair attempt) evs\<rparr>
         | (NextAttempt, evs) \<Rightarrow>
             (let rest = retry_loop page dom_element index text max_retries (Suc attempt) in
              rest\<lparr>field_events := map (Pair attempt) evs @ field_events rest\<rparr>))
      else
        \<lparr>result = error_result (''Unable to input '' @ sq @ text @ sq @ '' into field ''
                    @ str_int index @ '' after '' @ str_int max_retries @ '' attempts''),
         field_events = []\<rparr>)"
  by pat_completeness auto
termination
  by (relation "measure (\<lambda>(page, dom_element, index, text, max_retries, attempt).
        nat (max_retries - int attempt))") auto

definition input_text_with_retry ::
  "selector_map \<Rightarrow> text_page \<Rightarrow> int \<Rightarrow> string \<Rightarrow> int \<Rightarrow> text_run" where
  "input_text_with_retry selector_map page index text max_retries =
     (case map_of selector_map index of
        None \<Rightarrow> \<lparr>result = error_result (''No element found at index '' @ str_int index),
                  field_events = []\<rparr>
      | Some dom_element \<Rightarrow> retry_loop page dom_element index text max_retries 0)"

declare retry_loop.simps [simp del]

definition default_max_retries :: int where
  "default_max_retries = 3"

text \<open>
  A result built by \<open>ActionResult(extracted_content=...)\<close> is a success, one built by
  \<open>ActionResult(error=...)\<close> a failure. Attempt \<open>k\<close> reads the text back when its
  element is located, clearing and typing return, and the value read equals the text
  after trimming. The attempts made are counted by their \<open>get_locate_element\<close> calls.
\<close>

definition is_success :: "action_result \<Rightarrow> bool" where
  "is_success r = (error r = None \<and> extracted_content r \<noteq> None)"

definition is_failure :: "action_result \<Rightarrow> bool" where
  "is_failure r = (error r \<noteq> None)"

definition reads_back :: "text_page \<Rightarrow> dom_el \<Rightarrow> string \<Rightarrow> nat \<Rightarrow> bool" where
  "reads_back page dom_element text k =
     (locate_element page dom_element k = Inr True
      \<and> clear_value page k = None
      \<and> type_value page k text = None
      \<and> (case read_value page k of Inl e \<Rightarrow> False | Inr v \<Rightarrow> strip v = strip text))"

definition attempts_made :: "text_run \<Rightarrow> nat" where
  "attempts_made r = length (filter (\<lambda>(k, e). e = LocateElement) (field_events r))"








section \<open>The custom dropdown fallback chain\<close>

text \<open>
  The page as \<open>custom_select_dropdown_option\<close> uses it, one answer per call site: a call
  returns or raises (\<open>Inl\<close> and \<open>Some\<close> carry the exception's text).
  \<open>get_locate_element\<close> is called outside any \<open>try\<close>, so what it raises leaves the
  action as an exception. The script that reads the highlighted option returns its text
  or \<open>null\<close>; poll \<open>k\<close> of the keyboard loop reads it and then presses one key. What the
  first scroll-into-view script raises is caught and only logged, and this action's log
  is not modelled, so its answer does not occur. Every call made is recorded, tagged
  with the stage of the chain it belongs to: the scroll into view, the click that opens
  the control together with the keyboard navigation, the container scroll and click, and
  the final typing of the full text. \<open>attempt < max_attempts / 2\<close> is a comparison with
  a float and is written without the division.
\<close>

datatype key = Enter | ArrowDown | ArrowUp

datatype stage = ScrollIntoView | KeyboardNav | ContainerScroll | DirectTyping

datatype dd_event =
    EvalScroll string
  | LocateHandle
  | ClickHandle
  | TypeHandle string
  | ReadCurrentOption
  | Press key
  | EvalScrollAndFind string
  | WaitForSelector string
  | ClickOption string

record dropdown_page =
  dd_locate :: "dom_el \<Rightarrow> string + bool"
  dd_open_click :: "string option"
  dd_focus_click :: "string option"
  dd_type_first_chars :: "string \<Rightarrow> string option"
  dd_current_option :: "nat \<Rightarrow> string + string option"
  dd_press :: "nat \<Rightarrow> key \<Rightarrow> string option"
  dd_scroll_and_find :: "string \<Rightarrow> string + bool"
  dd_wait_for_selector :: "string \<Rightarrow> string + bool"
  dd_option_click :: "string \<Rightarrow> string option"
  dd_final_click :: "string option"
  dd_final_type :: "string \<Rightarrow> string option"
  dd_final_enter :: "string option"

definition max_attempts :: nat where
  "max_attempts = 30"

datatype kb_end = Selected nat | Raised string | Exhausted

definition arrow_at :: "nat \<Rightarrow> key" where
  "arrow_at attempt = (if 2 * attempt < max_attempts then ArrowDown else ArrowUp)"

function kb_loop :: "dropdown_page \<Rightarrow> string \<Rightarrow> nat \<Rightarrow> kb_end \<times> dd_event list" where
  "kb_loop page text attempt =
     (if attempt < max_attempts then
        (case dd_current_option page attempt of
           Inl e \<Rightarrow> (Raised e, [ReadCurrentOption])
         | Inr current_text \<Rightarrow>
             (if (case current_text of
                    None \<Rightarrow> False
                  | Some s \<Rightarrow> s \<noteq> [] \<and> py_in (lower text) (lower s)) then
                (case dd_press page attempt Enter of
                   Some e \<Rightarrow> (Raised e, [ReadCurrentOption, Press Enter])
                 | None \<Rightarrow> (Selected attempt, [ReadCurrentOption, Press Enter]))
              else
                (let arrow = arrow_at attempt in
                 case dd_press page attempt arrow of
                   Some e \<Rightarrow> (Raised e, [ReadCurrentOption, Press arrow])
                 | None \<Rightarrow>
                     (case kb_loop page text (Suc attempt) of
                        (r, evs) \<Rightarrow> (r, [ReadCurrentOption, Press arrow] @ evs)))))
      else (Exhausted, []))"
  by pat_completeness auto
termination
  by (relation "measure (\<lambda>(page, text, attempt). max_attempts - attempt)") auto

definition selected_message :: "string \<Rightarrow> nat \<Rightarrow> string" where
  "selected_message text k =
     ''Selected option '' @ sq @ text @ sq @ '' using keyboard nav after ''
       @ str_int (int k + 1) @ '' attempts''"

definition keyboard_nav :: "dropdown_page \<Rightarrow> string \<Rightarrow> action_result option \<times> dd_event list" where
  "keyboard_nav page text =
     (case dd_focus_click page of
        Some e \<Rightarrow> (None, [ClickHandle])
      | None \<Rightarrow>
          (let first_chars = take 3 text in
           case dd_type_first_chars page first_chars of
             Some e \<Rightarrow> (None, [ClickHandle, TypeHandle first_chars])
           | None \<Rightarrow>
               (case kb_loop page text 0 of
                  (Selected attempt, evs) \<Rightarrow>
                    (Some (content_result (selected_message text attempt) True),
                     [ClickHandle, TypeHandle first_chars] @ evs)
                | (_, evs) \<Rightarrow> (None, [ClickHandle, TypeHandle first_chars] @ evs))))"







declare kb_loop.simps [simp del]

section \<open>The form progress loop\<close>
















section \<open>Notions used in the statements\<close>

subsection \<open>The dropdown chain\<close>

text \<open>
  Poll \<open>k\<close> matches when the highlighted text read is not empty and contains the target
  ignoring case; it returns when neither the read nor the arrow press raises.
  \<open>polls a k\<close> are the calls of the polls from \<open>a\<close> up to \<open>k\<close> when none of them
  matches or raises. \<open>alternating\<close> says of a list of keys that neighbours differ.
  A stage has run when the trace holds a call of it; it reports success when its block
  returns a result built with \<open>extracted_content\<close>.
\<close>

definition highlight_matches :: "dropdown_page \<Rightarrow> string \<Rightarrow> nat \<Rightarrow> bool" where
  "highlight_matches page text k =
     (case dd_current_option page k of
        Inr (Some current_text) \<Rightarrow> current_text \<noteq> [] \<and> py_in (lower text) (lower current_text)
      | _ \<Rightarrow> False)"

definition poll_returns :: "dropdown_page \<Rightarrow> nat \<Rightarrow> bool" where
  "poll_returns page k =
     ((case dd_current_option page k of Inl e \<Rightarrow> False | Inr c \<Rightarrow> True)
      \<and> dd_press page k (arrow_at k) = None)"

definition polls :: "nat \<Rightarrow> nat \<Rightarrow> dd_event list" where
  "polls a k = concat (map (\<lambda>j. [ReadCurrentOption, Press (arrow_at j)]) [a..<k])"

fun alternating :: "key list \<Rightarrow> bool" where
  "alternating (a # b # rest) = (a \<noteq> b \<and> alternating (b # rest))"
| "alternating _ = True"

fun pressed :: "dd_event list \<Rightarrow> key list" where
  "pressed [] = []"
| "pressed (Press k # evs) = k # pressed evs"
| "pressed (_ # evs) = pressed evs"




subsection \<open>The form progress loop\<close>




subsection \<open>The login flow\<close>

text \<open>
  What the theorems about the login flow speak of: the dict the credentials lookup
  serialises, the JSON library returning that dict when it parses the serialisation, the
  username and password stored for a site, two pages answering alike the calls of the
  login flow when the username is typed into both and one password into the first and
  another into the second, and a credentials store with every stored password blanked
  out.
\<close>

definition extracted_of :: "py_dict \<Rightarrow> py_dict" where
  "extracted_of creds = [(''username'', dict_get creds ''username'' []),
                         (''password'', dict_get creds ''password'' [])]"

definition json_round_trip :: "json_codec \<Rightarrow> py_dict \<Rightarrow> bool" where
  "json_round_trip codec d = (json_loads codec (json_dumps codec d) = Some d)"

definition codec_ok_at :: "json_codec \<Rightarrow> credentials \<Rightarrow> string \<Rightarrow> bool" where
  "codec_ok_at codec data site_name =
     (case credentials_lower data (strip (lower site_name)) of
        None \<Rightarrow> True
      | Some creds \<Rightarrow> json_round_trip codec (extracted_of creds))"

definition stored :: "credentials \<Rightarrow> string \<Rightarrow> string \<Rightarrow> string" where
  "stored data site_name k =
     (case credentials_lower data (strip (lower site_name)) of
        None \<Rightarrow> []
      | Some creds \<Rightarrow> dict_get creds k [])"

definition same_answers ::
  "login_page \<Rightarrow> string \<Rightarrow> login_page \<Rightarrow> string \<Rightarrow> string \<Rightarrow> bool" where
  "same_answers page password page' password' username =
     (page_url page = page_url page'
      \<and> page_goto page = page_goto page'
      \<and> page_wait_for_load_state page = page_wait_for_load_state page'
      \<and> page_click page = page_click page'
      \<and> (\<forall>sel. page_fill page sel username = page_fill page' sel username)
      \<and> (\<forall>sel. page_fill page sel password = page_fill page' sel password'))"

definition redact_entry :: "py_dict \<Rightarrow> py_dict" where
  "redact_entry d = map (\<lambda>(k, v). if k = ''password'' \<and> v \<noteq> [] then (k, ''*'') else (k, v)) d"

definition redact :: "credentials \<Rightarrow> credentials" where
  "redact data = map (\<lambda>(site, d). (site, redact_entry d)) data"

section \<open>Example data\<close>

text \<open>
  Concrete element indexes, pages, agents and credentials, on which the theorems below are
  instantiated.
\<close>

definition example_index :: selector_map where
  "example_index =
     [(0, \<lparr>xpath = ''html/body/form/div[1]/input'', all_text = ''First name''\<rparr>),
      (7, \<lparr>xpath = ''html/body/form/div[2]/input[@id=\"Email-1\"]'', all_text = ''''\<rparr>),
      (9, \<lparr>xpath = ''html/body/form/div[3]/label'', all_text = ''Your EMAIL ADDRESS here''\<rparr>)]"

definition flaky_page :: text_page where
  "flaky_page =
     \<lparr>locate_element = (\<lambda>el k. if k = 0 then Inr False else Inr True),
      clear_value = (\<lambda>k. None),
      type_value = (\<lambda>k t. None),
      read_value = (\<lambda>k. if k = 1 then Inr ''Jane'' else Inr '' Jane Doe  '')\<rparr>"




definition quiet_dropdown :: "(nat \<Rightarrow> string option) \<Rightarrow> dropdown_page" where
  "quiet_dropdown highlighted =
     \<lparr>dd_locate = (\<lambda>el. Inr True), dd_open_click = None, dd_focus_click = None,
      dd_type_first_chars = (\<lambda>t. None),
      dd_current_option = (\<lambda>k. Inr (highlighted k)),
      dd_press = (\<lambda>k key. None),
      dd_scroll_and_find = (\<lambda>t. Inr False),
      dd_wait_for_selector = (\<lambda>s. Inr False),
      dd_option_click = (\<lambda>s. None),
      dd_final_click = None, dd_final_type = (\<lambda>t. None), dd_final_enter = None\<rparr>"

definition never_matching_dropdown :: dropdown_page where
  "never_matching_dropdown = quiet_dropdown (\<lambda>k. Some ''No'')"

definition empty_highlight_dropdown :: dropdown_page where
  "empty_highlight_dropdown = quiet_dropdown (\<lambda>k. Some [])"

definition third_poll_dropdown :: dropdown_page where
  "third_poll_dropdown = quiet_dropdown (\<lambda>k. if k = 2 then Some ''yes, please'' else Some ''No'')"







definition demo_codec :: json_codec where
  "demo_codec =
     \<lparr>json_dumps = (\<lambda>d. concat (map (\<lambda>(k, v). k @ ''='' @ v @ '';'') d)),
      json_loads = (\<lambda>s.
        if s = ''username=alice;password=;''
          then Some [(''username'', ''alice''), (''password'', [])]
        else if s = ''username=alice;password=s3cret;''
          then Some [(''username'', ''alice''), (''password'', ''s3cret'')]
        else if s = ''username=alice;password=hunter2;''
          then Some [(''username'', ''alice''), (''password'', ''hunter2'')]
        else None),
      json_loads_unfilled = (\<lambda>s.
        if s = ''{\"unfilled_fields\": [{\"id\": \"email-1\", \"type\": \"text\", \"label\": \"Email Address\"}]}''
          then Some [(''unfilled_fields'',
                      [\<lparr>info_id = ''email-1'', info_type = ''text'',
                        info_label = Some ''Email Address''\<rparr>])]
        else if s = ''{\"unfilled_fields\": []}''
          then Some [(''unfilled_fields'', [])]
        else None)\<rparr>"

definition demo_page :: login_page where
  "demo_page = \<lparr>page_url = ''about:blank'', page_goto = (\<lambda>_. None),
     page_wait_for_load_state = None, page_fill = (\<lambda>_ _. None), page_click = (\<lambda>_. None)\<rparr>"

definition echoing_page :: login_page where
  "echoing_page =
     demo_page\<lparr>page_fill := (\<lambda>sel v. if sel = ''input#password''
                                  then Some (''fill('' @ v @ '')'') else None)\<rparr>"

definition timeout_page :: login_page where
  "timeout_page =
     demo_page\<lparr>page_fill := (\<lambda>sel v. if sel = ''input#password''
                                  then Some ''Timeout 30000ms exceeded.'' else None)\<rparr>"

definition no_password_credentials :: credentials where
  "no_password_credentials = [(''LinkedIn'', [(''username'', ''alice'')])]"

definition demo_credentials :: "string \<Rightarrow> credentials" where
  "demo_credentials password =
     [(''LinkedIn'', [(''username'', ''alice''), (''password'', password)])]"

section \<open>Facts about the string operations\<close>

lemma py_in_sublist: "py_in needle hay = sublist needle hay"
  by (induction hay) (auto simp: sublist_Cons_right)

lemma py_in_empty: "py_in [] hay"
  by (simp add: py_in_sublist)

lemma lower_empty: "lower [] = []"
  by (simp add: lower_def)

lemma lower_char_idem: "lower_char (lower_char c) = lower_char c"
  by (auto simp: lower_char_def split: option.splits if_splits)

lemma lower_char_space: "py_isspace (lower_char c) = py_isspace c"
  by (auto simp: lower_char_def py_isspace_def split: option.splits if_splits)

lemma lower_idem: "lower (lower s) = lower s"
  by (simp add: lower_def lower_char_idem)

lemma lower_strip: "lower (strip s) = strip (lower s)"
proof -
  have comp: "py_isspace \<circ> lower_char = py_isspace"
    by (rule ext) (simp add: lower_char_space)
  show ?thesis
    by (simp add: lower_def strip_def rev_map dropWhile_map comp)
qed

lemma dropWhile_keeps_head:
  "t = [] \<or> \<not> P (hd t) \<Longrightarrow>
   dropWhile P (rev (dropWhile P (rev t))) = rev (dropWhile P (rev t))"
proof (cases t)
  case Nil
  then show ?thesis by simp
next
  case (Cons x t')
  assume "t = [] \<or> \<not> P (hd t)"
  with Cons have nx: "\<not> P x" by simp
  have "\<exists>ys. dropWhile P (rev t) = ys @ [x]"
    using Cons nx by (cases "\<forall>y\<in>set t'. P y") (simp_all add: dropWhile_append)
  then obtain ys where ys: "dropWhile P (rev t) = ys @ [x]" ..
  show ?thesis
    using nx by (simp add: ys)
qed

lemma strip_idem: "strip (strip s) = strip s"
proof -
  let ?t = "dropWhile py_isspace s"
  have "?t = [] \<or> \<not> py_isspace (hd ?t)"
    using hd_dropWhile [of py_isspace s] by auto
  then have "dropWhile py_isspace (rev (dropWhile py_isspace (rev ?t)))
      = rev (dropWhile py_isspace (rev ?t))"
    by (rule dropWhile_keeps_head)
  then show ?thesis
    by (simp add: strip_def)
qed

lemma site_key: "lower (strip (strip (lower site_name))) = strip (lower site_name)"
  by (simp add: strip_idem lower_strip lower_idem)

section \<open>Theorems: the field locator\<close>

lemma locator_test_is_field_matches:
  "(py_in (lower field_id) (lower (xpath el)) \<or> py_in (lower label) (lower (all_text el)))
     = field_matches field_id label el"
  by (simp add: field_matches_def contains_ignoring_case_def py_in_sublist)

lemma locator_no_match:
  "\<forall>e \<in> set sm. \<not> field_matches field_id label (snd e) \<Longrightarrow>
   find_highlight_index_for_field sm field_id label = None"
  by (induction sm) (auto simp: locator_test_is_field_matches)

lemma locator_skips_prefix:
  "\<forall>e \<in> set pre. \<not> field_matches field_id label (snd e) \<Longrightarrow>
   find_highlight_index_for_field (pre @ rest) field_id label
     = find_highlight_index_for_field rest field_id label"
  by (induction pre) (auto simp: locator_test_is_field_matches)

text \<open>
  C3. The field locator returns the index of the first entry, in the order of the element
  index, whose path contains the field's id ignoring case or whose rendered text contains
  the field's label ignoring case; it returns \<open>None\<close> when no entry matches.
\<close>

theorem locator_returns_first_match:
  "(\<forall>pre idx el post.
      sm = pre @ (idx, el) # post
      \<and> (\<forall>e \<in> set pre. \<not> field_matches field_id label (snd e))
      \<and> field_matches field_id label el
      \<longrightarrow> find_highlight_index_for_field sm field_id label = Some idx)
   \<and> ((\<forall>e \<in> set sm. \<not> field_matches field_id label (snd e))
      \<longrightarrow> find_highlight_index_for_field sm field_id label = None)"
proof (intro conjI allI impI)
  fix pre idx el post
  assume h: "sm = pre @ (idx, el) # post
      \<and> (\<forall>e \<in> set pre. \<not> field_matches field_id label (snd e))
      \<and> field_matches field_id label el"
  then have "find_highlight_index_for_field sm field_id label
      = find_highlight_index_for_field ((idx, el) # post) field_id label"
    by (simp add: locator_skips_prefix)
  also have "\<dots> = Some idx"
    using h by (simp add: locator_test_is_field_matches)
  finally show "find_highlight_index_for_field sm field_id label = Some idx" .
next
  assume "\<forall>e \<in> set sm. \<not> field_matches field_id label (snd e)"
  then show "find_highlight_index_for_field sm field_id label = None"
    by (rule locator_no_match)
qed

theorem locator_returns_first_match_witness:
  "find_highlight_index_for_field example_index ''email-1'' ''Email Address'' = Some 7
   \<and> find_highlight_index_for_field example_index ''zip'' ''Postal code'' = None"
proof
  let ?pre = "[(0, \<lparr>xpath = ''html/body/form/div[1]/input'', all_text = ''First name''\<rparr>)]"
  let ?el = "\<lparr>xpath = ''html/body/form/div[2]/input[@id=\"Email-1\"]'', all_text = ''''\<rparr>"
  let ?post = "[(9, \<lparr>xpath = ''html/body/form/div[3]/label'',
                       all_text = ''Your EMAIL ADDRESS here''\<rparr>)]"
  have split: "example_index = ?pre @ (7, ?el) # ?post"
    by (simp add: example_index_def)
  have before: "\<forall>e \<in> set ?pre. \<not> field_matches ''email-1'' ''Email Address'' (snd e)"
    by (simp add: locator_test_is_field_matches [symmetric] lower_def lower_char_def)
  have here: "field_matches ''email-1'' ''Email Address'' ?el"
    by (simp add: locator_test_is_field_matches [symmetric] lower_def lower_char_def)
  from locator_returns_first_match [of example_index "''email-1''" "''Email Address''"]
    split before here
  show "find_highlight_index_for_field example_index ''email-1'' ''Email Address'' = Some 7"
    by blast
next
  have none: "\<forall>e \<in> set example_index. \<not> field_matches ''zip'' ''Postal code'' (snd e)"
    by (simp add: example_index_def locator_test_is_field_matches [symmetric]
        lower_def lower_char_def)
  from locator_returns_first_match [of example_index "''zip''" "''Postal code''"] none
  show "find_highlight_index_for_field example_index ''zip'' ''Postal code'' = None"
    by blast
qed

text \<open>
  C10. For a field whose label is the empty string and an element index that is not
  empty, the field locator returns the first index in iteration order whatever the
  field's id is: the empty label is a substring of every rendered text, so the locator
  cannot return \<open>None\<close> on a non-empty index.
\<close>

theorem locator_empty_label_first_index:
  "sm \<noteq> [] \<Longrightarrow> find_highlight_index_for_field sm field_id [] = Some (fst (hd sm))"
  by (cases sm) (auto simp: lower_empty py_in_empty)

theorem locator_empty_label_first_index_witness:
  "example_index \<noteq> []
   \<and> find_highlight_index_for_field example_index ''no-such-id'' [] = Some 0"
proof -
  have ne: "example_index \<noteq> []"
    by (simp add: example_index_def)
  from locator_empty_label_first_index [OF ne, of "''no-such-id''"] ne
  show ?thesis
    by (simp add: example_index_def)
qed

section \<open>Theorems: the login flow\<close>

lemma map_of_redact_entry:
  "map_of (redact_entry d) k
     = map_option (\<lambda>v. if k = ''password'' \<and> v \<noteq> [] then ''*'' else v) (map_of d k)"
  by (induction d) (simp_all add: redact_entry_def split: prod.splits)

lemma redact_entry_username:
  "dict_get (redact_entry d) ''username'' [] = dict_get d ''username'' []"
  by (simp add: dict_get_def map_of_redact_entry split: option.splits)

lemma redact_entry_password:
  "(dict_get (redact_entry d) ''password'' [] = []) = (dict_get d ''password'' [] = [])"
  by (simp add: dict_get_def map_of_redact_entry split: option.splits)

lemma redact_keys: "map fst (redact data) = map fst data"
  by (induction data) (auto simp: redact_def)

lemma map_of_rev_redact:
  "map_of (rev (map (\<lambda>(k, v). (lower k, v)) (redact data))) k
     = map_option redact_entry (map_of (rev (map (\<lambda>(k, v). (lower k, v)) data)) k)"
proof -
  have "rev (map (\<lambda>(k, v). (lower k, v)) (redact data))
      = map (\<lambda>(k, v). (k, redact_entry v)) (rev (map (\<lambda>(k, v). (lower k, v)) data))"
    by (simp add: redact_def rev_map split_def)
  then show ?thesis
    by (simp add: map_of_map)
qed

lemma credentials_lower_redact:
  "credentials_lower (redact data) k = map_option redact_entry (credentials_lower data k)"
  by (simp add: credentials_lower_def map_of_rev_redact)

lemma run_steps_raise:
  "map snd s = map snd s' \<Longrightarrow> snd (run_steps s) = snd (run_steps s')"
proof (induction s arbitrary: s')
  case Nil
  then show ?case by simp
next
  case (Cons a s)
  then obtain b t where s': "s' = b # t" by (cases s') auto
  with Cons.prems have "snd a = snd b" "map snd s = map snd t" by auto
  with Cons.IH [of t] s' show ?case
    by (cases a; cases b) (auto split: option.splits prod.splits)
qed

lemma site_login_log_same:
  assumes "page_goto page = page_goto page'"
    and "page_wait_for_load_state page = page_wait_for_load_state page'"
    and "page_click page = page_click page'"
    and "\<forall>sel. page_fill page sel u = page_fill page' sel u"
    and "\<forall>sel. page_fill page sel p = page_fill page' sel p'"
  shows "log (site_login page log0 on_site url us ps bs site u p)
       = log (site_login page' log0 on_site url us ps bs site u p')"
proof -
  let ?steps = "\<lambda>pg pw. (if \<not> on_site then [(Goto url, page_goto pg url)] else [])
         @ [(WaitForLoadState, page_wait_for_load_state pg),
            (Fill us u, page_fill pg us u),
            (Fill ps pw, page_fill pg ps pw),
            (Click bs, page_click pg bs)]"
  have "page_fill page ps p = page_fill page' ps p'" "page_fill page us u = page_fill page' us u"
    using assms by blast+
  then have "map snd (?steps page p) = map snd (?steps page' p')"
    using assms(1-3) by simp
  then have "snd (run_steps (?steps page p)) = snd (run_steps (?steps page' p'))"
    by (rule run_steps_raise)
  then show ?thesis
    unfolding site_login_def
    by (cases "run_steps (?steps page p)"; cases "run_steps (?steps page' p')")
      (auto simp: Let_def split: option.splits)
qed

lemma site_login_log_head:
  "hd (log (site_login page (l # ls) on_site url us ps bs site u p)) = l"
  by (simp add: site_login_def Let_def split: prod.splits option.splits)

lemma login_log_found:
  assumes "credentials_lower data (strip (lower site_name)) = Some creds"
    and "json_round_trip codec (extracted_of creds)"
  shows "log (perform_login_flow codec data page site_name) =
     (let site_name_lower = strip (lower site_name);
          username = dict_get creds ''username'' [];
          password = dict_get creds ''password'' [] in
      if username = [] \<or> password = [] then
        [''Credentials incomplete for site '' @ site_name_lower]
      else if site_name_lower = ''linkedin'' then
        log (site_login page [''Attempting to login to '' @ site_name_lower
                                   @ '' with user '' @ sq @ username @ sq]
               (py_in ''linkedin.com'' (page_url page))
                    ''https://www.linkedin.com/login''
                    ''input#username'' ''input#password'' ''button[type=\"submit\"]''
                    ''LinkedIn'' username password)
      else if site_name_lower = ''indeed'' then
        log (site_login page [''Attempting to login to '' @ site_name_lower
                                   @ '' with user '' @ sq @ username @ sq]
                (py_in ''indeed.com'' (lower (page_url page)))
                    ''https://secure.indeed.com/account/login''
                    ''input#login-email-input'' ''input#login-password-input''
                    ''button[data-testid=\"login-submit-button\"]''
                    ''Indeed'' username password)
      else [''Attempting to login to '' @ site_name_lower
                                   @ '' with user '' @ sq @ username @ sq,
            ''No specialized login flow for site: '' @ site_name_lower])"
  using assms
  by (simp add: perform_login_flow_def get_site_login_credentials_def site_key
      json_round_trip_def extracted_of_def content_result_def truthy_def Let_def
      dict_get_def)

lemma login_log_not_found:
  assumes "credentials_lower data (strip (lower site_name)) = None"
  shows "log (perform_login_flow codec data page site_name) =
     [''No login credentials found for site '' @ sq @ strip (lower site_name) @ sq
        @ '' (available sites: '' @ repr_keys (map fst data) @ '')'']"
  using assms
  by (simp add: perform_login_flow_def get_site_login_credentials_def site_key
      error_result_def truthy_def Let_def)

lemma redact_same_entry:
  assumes "redact data = redact data'"
  shows "map_option redact_entry (credentials_lower data k)
       = map_option redact_entry (credentials_lower data' k)"
  using assms credentials_lower_redact [of data k] credentials_lower_redact [of data' k]
  by simp

text \<open>
  C6, as stated, fails on a site name with surrounding whitespace: for \<open>"LinkedIn "\<close> and
  an entry without a password the message names the site \<open>linkedin\<close>, lower-cased and
  trimmed, not the lower-cased name \<open>"linkedin "\<close>.
\<close>

theorem login_incomplete_message_counterexample:
  "credentials_lower no_password_credentials (strip (lower ''LinkedIn ''))
     = Some [(''username'', ''alice'')]
   \<and> error (outcome (perform_login_flow demo_codec no_password_credentials demo_page
                       ''LinkedIn ''))
     = Some ''Credentials incomplete for site linkedin''
   \<and> ''Credentials incomplete for site linkedin''
     \<noteq> ''Credentials incomplete for site '' @ lower ''LinkedIn ''"
  by (simp add: perform_login_flow_def get_site_login_credentials_def demo_codec_def
      no_password_credentials_def credentials_lower_def lower_def lower_char_def strip_def
      py_isspace_def content_result_def error_result_def truthy_def dict_get_def Let_def)

text \<open>
  C6, amended. When the credentials entry found for a site name lacks a username or a
  password (or has an empty one), \<open>perform_login_flow\<close> normalises the site name to lower
  case and trims surrounding whitespace, returns the failure result with the message
  ``Credentials incomplete for site'' followed by the normalised name, logs that message,
  raises nothing and performs no page action. The JSON library is assumed to parse the
  serialised credentials back.
\<close>

theorem login_incomplete_credentials:
  assumes entry: "credentials_lower data (strip (lower site_name)) = Some creds"
    and incomplete: "dict_get creds ''username'' [] = [] \<or> dict_get creds ''password'' [] = []"
    and codec: "json_round_trip codec (extracted_of creds)"
  shows "perform_login_flow codec data page site_name =
     \<lparr>outcome = error_result (''Credentials incomplete for site '' @ strip (lower site_name)),
      log = [''Credentials incomplete for site '' @ strip (lower site_name)],
      events = []\<rparr>"
  using assms
  by (auto simp: perform_login_flow_def get_site_login_credentials_def site_key
      json_round_trip_def extracted_of_def content_result_def truthy_def dict_get_def Let_def)

theorem login_incomplete_credentials_witness:
  "perform_login_flow demo_codec no_password_credentials demo_page ''LinkedIn'' =
     \<lparr>outcome = error_result ''Credentials incomplete for site linkedin'',
      log = [''Credentials incomplete for site linkedin''],
      events = []\<rparr>"
proof -
  have key: "strip (lower ''LinkedIn'') = ''linkedin''"
    by (simp add: lower_def lower_char_def strip_def py_isspace_def)
  have entry: "credentials_lower no_password_credentials (strip (lower ''LinkedIn''))
      = Some [(''username'', ''alice'')]"
    unfolding key
    by (simp add: no_password_credentials_def credentials_lower_def lower_def lower_char_def)
  have incomplete: "dict_get [(''username'', ''alice'')] ''username'' [] = []
      \<or> dict_get [(''username'', ''alice'')] ''password'' [] = []"
    by (simp add: dict_get_def)
  have codec: "json_round_trip demo_codec (extracted_of [(''username'', ''alice'')])"
    by (simp add: json_round_trip_def extracted_of_def demo_codec_def dict_get_def)
  from login_incomplete_credentials [OF entry incomplete codec, of demo_page]
  show ?thesis
    unfolding key by simp
qed

lemma lookup_log_same:
  assumes same: "redact data = redact data'"
  shows "snd (get_site_login_credentials codec data site_name)
       = snd (get_site_login_credentials codec data' site_name)"
proof -
  have keys: "map fst data = map fst data'"
    using same redact_keys [of data] redact_keys [of data'] by simp
  from redact_same_entry [OF same, of "lower (strip site_name)"]
  show ?thesis
    by (cases "credentials_lower data (lower (strip site_name))";
        cases "credentials_lower data' (lower (strip site_name))")
      (simp_all add: get_site_login_credentials_def keys)
qed

lemma login_log_same:
  assumes same: "redact data = redact data'"
    and ok: "codec_ok_at codec data site_name"
    and ok': "codec_ok_at codec data' site_name"
    and answers: "same_answers page (stored data site_name ''password'')
        page' (stored data' site_name ''password'') (stored data site_name ''username'')"
  shows "log (perform_login_flow codec data page site_name)
       = log (perform_login_flow codec data' page' site_name)"
proof (cases "credentials_lower data (strip (lower site_name))")
  case None
  with redact_same_entry [OF same, of "strip (lower site_name)"]
  have none': "credentials_lower data' (strip (lower site_name)) = None"
    by simp
  have "map fst data = map fst data'"
    using same redact_keys [of data] redact_keys [of data'] by simp
  then show ?thesis
    by (simp add: login_log_not_found [OF None] login_log_not_found [OF none'])
next
  case (Some creds)
  with redact_same_entry [OF same, of "strip (lower site_name)"]
  obtain creds' where some': "credentials_lower data' (strip (lower site_name)) = Some creds'"
    and red: "redact_entry creds = redact_entry creds'"
    by (cases "credentials_lower data' (strip (lower site_name))") auto
  have rt: "json_round_trip codec (extracted_of creds)"
    using ok Some by (simp add: codec_ok_at_def)
  have rt': "json_round_trip codec (extracted_of creds')"
    using ok' some' by (simp add: codec_ok_at_def)
  have user: "dict_get creds ''username'' [] = dict_get creds' ''username'' []"
    using red redact_entry_username [of creds] redact_entry_username [of creds'] by simp
  have pw: "(dict_get creds ''password'' [] = []) = (dict_get creds' ''password'' [] = [])"
    using red redact_entry_password [of creds] redact_entry_password [of creds'] by simp
  have url: "page_url page = page_url page'"
    and goto: "page_goto page = page_goto page'"
    and wait: "page_wait_for_load_state page = page_wait_for_load_state page'"
    and click: "page_click page = page_click page'"
    and fill_user: "\<forall>sel. page_fill page sel (dict_get creds' ''username'' [])
        = page_fill page' sel (dict_get creds' ''username'' [])"
    and fill_pw: "\<forall>sel. page_fill page sel (dict_get creds ''password'' [])
        = page_fill page' sel (dict_get creds' ''password'' [])"
    using answers by (simp_all add: same_answers_def stored_def Some some' user)
  show ?thesis
    unfolding login_log_found [OF Some rt] login_log_found [OF some' rt'] Let_def user url
    using pw site_login_log_same [OF goto wait click fill_user fill_pw]
    by simp
qed

text \<open>
  C9, as stated, fails in two ways. With complete credentials for LinkedIn the first line
  the login flow logs is \<open>Attempting to login to linkedin with user 'alice'\<close>, which
  contains the stored username. And the text of an exception raised by a page call is
  logged as it is: on a page whose \<open>fill\<close> fails with an error that echoes the value
  typed, the line \<open>Failed LinkedIn login flow: fill(s3cret)\<close> is logged, which contains
  the stored password.
\<close>

theorem login_log_plaintext_counterexample:
  "credentials_lower (demo_credentials ''s3cret'') (strip (lower ''LinkedIn''))
     = Some [(''username'', ''alice''), (''password'', ''s3cret'')]
   \<and> hd (log (perform_login_flow demo_codec (demo_credentials ''s3cret'') demo_page ''LinkedIn''))
     = ''Attempting to login to linkedin with user '' @ sq @ ''alice'' @ sq
   \<and> py_in ''alice''
        (hd (log (perform_login_flow demo_codec (demo_credentials ''s3cret'') demo_page
                    ''LinkedIn'')))
   \<and> last (log (perform_login_flow demo_codec (demo_credentials ''s3cret'') echoing_page
                    ''LinkedIn''))
     = ''Failed LinkedIn login flow: fill(s3cret)''
   \<and> py_in ''s3cret''
        (last (log (perform_login_flow demo_codec (demo_credentials ''s3cret'') echoing_page
                    ''LinkedIn'')))"
  by (simp add: perform_login_flow_def get_site_login_credentials_def demo_codec_def
      demo_credentials_def demo_page_def echoing_page_def credentials_lower_def lower_def
      lower_char_def strip_def py_isspace_def content_result_def error_result_def truthy_def
      dict_get_def site_login_def sq_def Let_def)

text \<open>
  C9, amended. The core builds no log line from a stored password: the log of the login
  flow and of the credentials lookup is determined by the site name, the credentials
  store with every non-empty password blanked out, and the answers of the page. Two runs
  on stores that agree once passwords are blanked, on pages that answer alike (also when
  the respective passwords are typed), and with a JSON library that parses the serialised
  credentials back, log the same lines. A stored password can therefore reach the log
  only inside the text of an exception that a page call raises, which is logged as it
  is. The stored username is logged in plaintext: with complete credentials the first
  line logged by the login flow is ``Attempting to login to'' the normalised site ``with
  user'' the username in quotes.
\<close>

theorem login_log_independent_of_password:
  assumes same: "redact data = redact data'"
    and ok: "codec_ok_at codec data site_name"
    and ok': "codec_ok_at codec data' site_name"
    and answers: "same_answers page (stored data site_name ''password'')
        page' (stored data' site_name ''password'') (stored data site_name ''username'')"
  shows "log (perform_login_flow codec data page site_name)
           = log (perform_login_flow codec data' page' site_name)
       \<and> snd (get_site_login_credentials codec data site_name)
           = snd (get_site_login_credentials codec data' site_name)
       \<and> (\<forall>creds. credentials_lower data (strip (lower site_name)) = Some creds
             \<and> dict_get creds ''username'' [] \<noteq> [] \<and> dict_get creds ''password'' [] \<noteq> []
           \<longrightarrow> hd (log (perform_login_flow codec data page site_name))
               = ''Attempting to login to '' @ strip (lower site_name) @ '' with user ''
                 @ sq @ dict_get creds ''username'' [] @ sq)"
proof (intro conjI allI impI)
  show "log (perform_login_flow codec data page site_name)
      = log (perform_login_flow codec data' page' site_name)"
    using same ok ok' answers by (rule login_log_same)
  show "snd (get_site_login_credentials codec data site_name)
      = snd (get_site_login_credentials codec data' site_name)"
    using same by (rule lookup_log_same)
next
  fix creds
  assume h: "credentials_lower data (strip (lower site_name)) = Some creds
      \<and> dict_get creds ''username'' [] \<noteq> [] \<and> dict_get creds ''password'' [] \<noteq> []"
  then have rt: "json_round_trip codec (extracted_of creds)"
    using ok by (simp add: codec_ok_at_def)
  from h have entry: "credentials_lower data (strip (lower site_name)) = Some creds"
    by simp
  show "hd (log (perform_login_flow codec data page site_name))
      = ''Attempting to login to '' @ strip (lower site_name) @ '' with user ''
        @ sq @ dict_get creds ''username'' [] @ sq"
    using h by (simp add: login_log_found [OF entry rt] Let_def site_login_log_head)
qed

theorem login_log_independent_of_password_witness:
  "log (perform_login_flow demo_codec (demo_credentials ''s3cret'') timeout_page ''LinkedIn'')
     = log (perform_login_flow demo_codec (demo_credentials ''hunter2'') timeout_page
              ''LinkedIn'')
   \<and> snd (get_site_login_credentials demo_codec (demo_credentials ''s3cret'') ''LinkedIn'')
     = snd (get_site_login_credentials demo_codec (demo_credentials ''hunter2'') ''LinkedIn'')
   \<and> hd (log (perform_login_flow demo_codec (demo_credentials ''s3cret'') timeout_page
                 ''LinkedIn''))
     = ''Attempting to login to linkedin with user '' @ sq @ ''alice'' @ sq"
proof -
  have key: "strip (lower ''LinkedIn'') = ''linkedin''"
    by (simp add: lower_def lower_char_def strip_def py_isspace_def)
  have same: "redact (demo_credentials ''s3cret'') = redact (demo_credentials ''hunter2'')"
    by (simp add: redact_def redact_entry_def demo_credentials_def)
  have entry: "\<And>p. credentials_lower (demo_credentials p) ''linkedin''
      = Some [(''username'', ''alice''), (''password'', p)]"
    by (simp add: demo_credentials_def credentials_lower_def lower_def lower_char_def)
  have ok: "codec_ok_at demo_codec (demo_credentials ''s3cret'') ''LinkedIn''"
    unfolding codec_ok_at_def key
    by (simp add: entry json_round_trip_def extracted_of_def demo_codec_def dict_get_def)
  have ok': "codec_ok_at demo_codec (demo_credentials ''hunter2'') ''LinkedIn''"
    unfolding codec_ok_at_def key
    by (simp add: entry json_round_trip_def extracted_of_def demo_codec_def dict_get_def)
  have answers: "same_answers timeout_page (stored (demo_credentials ''s3cret'') ''LinkedIn''
        ''password'') timeout_page (stored (demo_credentials ''hunter2'') ''LinkedIn''
        ''password'') (stored (demo_credentials ''s3cret'') ''LinkedIn'' ''username'')"
    unfolding same_answers_def stored_def key
    by (simp add: entry dict_get_def timeout_page_def timeout_page_def demo_page_def)
  note all = login_log_independent_of_password [OF same ok ok' answers, unfolded key]
  have complete: "credentials_lower (demo_credentials ''s3cret'') ''linkedin''
        = Some [(''username'', ''alice''), (''password'', ''s3cret'')]
      \<and> dict_get [(''username'', ''alice''), (''password'', ''s3cret'')] ''username'' [] \<noteq> []
      \<and> dict_get [(''username'', ''alice''), (''password'', ''s3cret'')] ''password'' [] \<noteq> []"
    by (simp add: entry dict_get_def)
  have first: "hd (log (perform_login_flow demo_codec (demo_credentials ''s3cret'') timeout_page
                         ''LinkedIn''))
      = ''Attempting to login to linkedin with user '' @ sq @ ''alice'' @ sq"
    using all [THEN conjunct2, THEN conjunct2, THEN spec, THEN mp, OF complete]
    by (simp add: dict_get_def)
  show ?thesis
    by (intro conjI all [THEN conjunct1] all [THEN conjunct2, THEN conjunct1] first)
qed

section \<open>Theorems: text input with retries\<close>

lemma success_failure_results [simp]:
  "is_success (content_result m b)" "\<not> is_success (error_result m)"
  "is_failure (error_result m)" "\<not> is_failure (content_result m b)"
  by (simp_all add: is_success_def is_failure_def content_result_def error_result_def)

lemma attempt_body_success:
  "(\<exists>r. fst (attempt_body page el index text max_retries k) = Return r \<and> is_success r)
     = reads_back page el text k"
  by (auto simp: attempt_body_def reads_back_def on_exception_def
      split: sum.splits bool.splits option.splits if_splits)

lemma attempt_body_return:
  "fst (attempt_body page el index text max_retries k) = Return r
     \<Longrightarrow> is_success r \<or> is_failure r"
  by (auto simp: attempt_body_def on_exception_def
      split: sum.splits bool.splits option.splits if_splits)

lemma attempt_body_locates:
  "length (filter (\<lambda>e. e = LocateElement) (snd (attempt_body page el index text max_retries k))) = 1"
  by (auto simp: attempt_body_def split: sum.splits bool.splits option.splits if_splits)

lemma attempt_body_early_return:
  "fst (attempt_body page el index text max_retries k) = Return r \<Longrightarrow> \<not> is_success r
     \<Longrightarrow> int k = max_retries - 1"
  by (auto simp: attempt_body_def on_exception_def
      split: sum.splits bool.splits option.splits if_splits)

lemma retry_loop_attempts:
  "attempts_made (retry_loop page el index tx max_retries attempt)
     \<le> nat (max_retries - int attempt)"
proof (induction page el index tx max_retries attempt rule: retry_loop.induct)
  case (1 page el index tx max_retries attempt)
  show ?case
  proof (cases "int attempt < max_retries")
    case False
    then show ?thesis
      by (subst retry_loop.simps) (simp add: attempts_made_def)
  next
    case True
    obtain e evs where body: "attempt_body page el index tx max_retries attempt = (e, evs)"
      by (cases "attempt_body page el index tx max_retries attempt")
    have one: "length (filter (\<lambda>e. e = LocateElement) evs) = 1"
      using attempt_body_locates [of page el index tx max_retries attempt] body by simp
    have count: "length (filter (\<lambda>(k, e). e = LocateElement) (map (Pair attempt) evs)) = 1"
      using one by (simp add: filter_map comp_def)
    show ?thesis
    proof (cases e)
      case (Return r)
      with True body count show ?thesis
        by (subst retry_loop.simps) (simp add: attempts_made_def)
    next
      case NextAttempt
      with "1.IH" [OF True body [symmetric]] True
      have "attempts_made (retry_loop page el index tx max_retries (Suc attempt))
          \<le> nat (max_retries - int (Suc attempt))"
        by simp
      with True body NextAttempt count show ?thesis
        by (subst retry_loop.simps) (simp add: attempts_made_def Let_def)
    qed
  qed
qed

lemma retry_loop_success:
  "is_success (result (retry_loop page el index tx max_retries attempt))
     = (\<exists>k\<ge>attempt. int k < max_retries \<and> reads_back page el tx k)"
proof (induction page el index tx max_retries attempt rule: retry_loop.induct)
  case (1 page el index tx max_retries attempt)
  show ?case
  proof (cases "int attempt < max_retries")
    case False
    then show ?thesis
      by (subst retry_loop.simps) auto
  next
    case True
    obtain e evs where body: "attempt_body page el index tx max_retries attempt = (e, evs)"
      by (cases "attempt_body page el index tx max_retries attempt")
    show ?thesis
    proof (cases e)
      case (Return r)
      have res: "result (retry_loop page el index tx max_retries attempt) = r"
        using True body Return by (subst retry_loop.simps) simp
      show ?thesis
      proof (cases "is_success r")
        case yes: True
        then have "reads_back page el tx attempt"
          using attempt_body_success [of page el index tx max_retries attempt] body Return
          by auto
        with True yes res show ?thesis by auto
      next
        case no: False
        have last: "int attempt = max_retries - 1"
          using attempt_body_early_return [of page el index tx max_retries attempt r]
            body Return no by simp
        have "\<not> reads_back page el tx attempt"
          using attempt_body_success [of page el index tx max_retries attempt] body Return no
          by auto
        moreover have "\<And>k. k \<ge> attempt \<Longrightarrow> int k < max_retries \<Longrightarrow> k = attempt"
          using last by simp
        ultimately show ?thesis
          using no res by auto
      qed
    next
      case NextAttempt
      have res: "result (retry_loop page el index tx max_retries attempt)
          = result (retry_loop page el index tx max_retries (Suc attempt))"
        using True body NextAttempt by (subst retry_loop.simps) (simp add: Let_def)
      have here: "\<not> reads_back page el tx attempt"
        using attempt_body_success [of page el index tx max_retries attempt] body NextAttempt
        by auto
      have "(\<exists>k\<ge>attempt. int k < max_retries \<and> reads_back page el tx k)
          = (\<exists>k\<ge>Suc attempt. int k < max_retries \<and> reads_back page el tx k)"
        using here by (metis Suc_leD Suc_leI le_neq_implies_less)
      with "1.IH" [OF True body [symmetric]] NextAttempt res show ?thesis
        by simp
    qed
  qed
qed

lemma retry_loop_outcome:
  "is_success (result (retry_loop page el index tx max_retries attempt))
   \<or> is_failure (result (retry_loop page el index tx max_retries attempt))"
proof (induction page el index tx max_retries attempt rule: retry_loop.induct)
  case (1 page el index tx max_retries attempt)
  show ?case
  proof (cases "int attempt < max_retries")
    case False
    then show ?thesis
      by (subst (1 2) retry_loop.simps) simp
  next
    case True
    obtain e evs where body: "attempt_body page el index tx max_retries attempt = (e, evs)"
      by (cases "attempt_body page el index tx max_retries attempt")
    show ?thesis
    proof (cases e)
      case (Return r)
      have res: "result (retry_loop page el index tx max_retries attempt) = r"
        using True body Return by (subst retry_loop.simps) simp
      show ?thesis
        using attempt_body_return [of page el index tx max_retries attempt r] body Return res
        by simp
    next
      case NextAttempt
      have res: "result (retry_loop page el index tx max_retries attempt)
          = result (retry_loop page el index tx max_retries (Suc attempt))"
        using True body NextAttempt by (subst retry_loop.simps) (simp add: Let_def)
      with "1.IH" [OF True body [symmetric]] NextAttempt show ?thesis
        by simp
    qed
  qed
qed

lemma attempt_body_events: "snd (attempt_body page el index tx max_retries k) \<noteq> []"
  by (auto simp: attempt_body_def split: sum.splits bool.splits option.splits if_splits)


text \<open>
  C1. \<open>input_text_with_retry\<close> makes at most \<open>max_retries\<close> attempts; it returns a success
  exactly when the index is in the selector map and, on some attempt below \<open>max_retries\<close>,
  the value read back from the element equals the text after trimming both; a run that
  is not a success is a failure, so exhausting the attempts without a trimmed match is
  one; and an index absent from the selector map gives a failure at once, before any
  call on the page.
\<close>

theorem input_text_with_retry_outcome:
  "attempts_made (input_text_with_retry sm page index tx max_retries) \<le> nat max_retries
   \<and> (is_success (result (input_text_with_retry sm page index tx max_retries))
        = (\<exists>el k. map_of sm index = Some el \<and> int k < max_retries \<and> reads_back page el tx k))
   \<and> (\<not> is_success (result (input_text_with_retry sm page index tx max_retries))
        \<longrightarrow> is_failure (result (input_text_with_retry sm page index tx max_retries)))
   \<and> (map_of sm index = None
        \<longrightarrow> is_failure (result (input_text_with_retry sm page index tx max_retries))
          \<and> field_events (input_text_with_retry sm page index tx max_retries) = [])"
proof (cases "map_of sm index")
  case None
  then show ?thesis
    by (simp add: input_text_with_retry_def attempts_made_def)
next
  case (Some el)
  have run: "input_text_with_retry sm page index tx max_retries
      = retry_loop page el index tx max_retries 0"
    using Some by (simp add: input_text_with_retry_def)
  have bound: "attempts_made (retry_loop page el index tx max_retries 0) \<le> nat max_retries"
    using retry_loop_attempts [of page el index tx max_retries 0] by simp
  have iff: "is_success (result (retry_loop page el index tx max_retries 0))
      = (\<exists>k. int k < max_retries \<and> reads_back page el tx k)"
    by (simp add: retry_loop_success)
  show ?thesis
    using Some bound iff retry_loop_outcome [of page el index tx max_retries 0]
    by (auto simp: run)
qed

theorem input_text_with_retry_outcome_witness:
  "attempts_made (input_text_with_retry example_index flaky_page 7 ''Jane Doe''
      default_max_retries) \<le> 3
   \<and> is_success (result (input_text_with_retry example_index flaky_page 7 ''Jane Doe''
      default_max_retries))
   \<and> is_failure (result (input_text_with_retry example_index flaky_page 7 ''Jane Doe'' 2))
   \<and> is_failure (result (input_text_with_retry example_index flaky_page 8 ''Jane Doe''
      default_max_retries))
   \<and> field_events (input_text_with_retry example_index flaky_page 8 ''Jane Doe''
      default_max_retries) = []"
proof -
  let ?el = "\<lparr>xpath = ''html/body/form/div[2]/input[@id=\"Email-1\"]'', all_text = []\<rparr>"
  have el: "map_of example_index 7 = Some ?el"
    by (simp add: example_index_def)
  have absent: "map_of example_index 8 = None"
    by (simp add: example_index_def)
  have third: "reads_back flaky_page ?el ''Jane Doe'' 2"
    by (simp add: reads_back_def flaky_page_def strip_def py_isspace_def)
  have early: "\<And>k. int k < 2 \<Longrightarrow> \<not> reads_back flaky_page ?el ''Jane Doe'' k"
  proof -
    fix k :: nat
    assume "int k < 2"
    then have "k = 0 \<or> k = 1" by auto
    then show "\<not> reads_back flaky_page ?el ''Jane Doe'' k"
      by (auto simp: reads_back_def flaky_page_def strip_def py_isspace_def)
  qed
  note three = input_text_with_retry_outcome
    [of example_index flaky_page 7 "''Jane Doe''" default_max_retries]
  note two = input_text_with_retry_outcome [of example_index flaky_page 7 "''Jane Doe''" 2]
  note none = input_text_with_retry_outcome
    [of example_index flaky_page 8 "''Jane Doe''" default_max_retries]
  have a: "attempts_made (input_text_with_retry example_index flaky_page 7 ''Jane Doe''
      default_max_retries) \<le> 3"
    using three by (simp add: default_max_retries_def)
  have "\<exists>el k. map_of example_index 7 = Some el \<and> int k < default_max_retries
      \<and> reads_back flaky_page el ''Jane Doe'' k"
    using el third by (intro exI [of _ ?el] exI [of _ 2]) (simp add: default_max_retries_def)
  with three have b: "is_success (result (input_text_with_retry example_index flaky_page 7
      ''Jane Doe'' default_max_retries))"
    by blast
  have "\<not> (\<exists>el k. map_of example_index 7 = Some el \<and> int k < 2
      \<and> reads_back flaky_page el ''Jane Doe'' k)"
    using el early by auto
  with two have c: "is_failure (result (input_text_with_retry example_index flaky_page 7
      ''Jane Doe'' 2))"
    by blast
  from none absent have d: "is_failure (result (input_text_with_retry example_index flaky_page 8
      ''Jane Doe'' default_max_retries))
    \<and> field_events (input_text_with_retry example_index flaky_page 8 ''Jane Doe''
      default_max_retries) = []"
    by blast
  from a b c d show ?thesis
    by blast
qed














section \<open>Theorems: the custom dropdown fallback chain\<close>

lemma kb_loop_step_no_match:
  assumes "attempt < max_attempts" "\<not> highlight_matches page tx attempt" "poll_returns page attempt"
  shows "kb_loop page tx attempt =
     (fst (kb_loop page tx (Suc attempt)),
      [ReadCurrentOption, Press (arrow_at attempt)] @ snd (kb_loop page tx (Suc attempt)))"
  using assms
  by (subst kb_loop.simps)
    (auto simp: highlight_matches_def poll_returns_def truthy_def Let_def
      split: sum.splits option.splits prod.splits)

lemma kb_loop_step_match:
  assumes "attempt < max_attempts" "highlight_matches page tx attempt"
    "dd_press page attempt Enter = None"
  shows "kb_loop page tx attempt = (Selected attempt, [ReadCurrentOption, Press Enter])"
  using assms
  by (subst kb_loop.simps)
    (auto simp: highlight_matches_def truthy_def split: sum.splits option.splits)

lemma polls_step: "a < k \<Longrightarrow> polls a k = [ReadCurrentOption, Press (arrow_at a)] @ polls (Suc a) k"
  by (simp add: polls_def upt_conv_Cons)

lemma kb_loop_selects:
  assumes "k < max_attempts"
    and "\<forall>j. a \<le> j \<and> j < k \<longrightarrow> \<not> highlight_matches page tx j \<and> poll_returns page j"
    and "highlight_matches page tx k" and "dd_press page k Enter = None" and "a \<le> k"
  shows "kb_loop page tx a = (Selected k, polls a k @ [ReadCurrentOption, Press Enter])"
  using assms
proof (induction "k - a" arbitrary: a)
  case 0
  then have "a = k" by simp
  with 0 show ?case
    by (simp add: kb_loop_step_match polls_def)
next
  case (Suc n)
  then have lt: "a < k" by simp
  with Suc.prems have here: "\<not> highlight_matches page tx a" "poll_returns page a"
    "a < max_attempts"
    by auto
  have "kb_loop page tx (Suc a) = (Selected k, polls (Suc a) k @ [ReadCurrentOption, Press Enter])"
    using Suc.hyps(1) [of "Suc a"] Suc.hyps(2) Suc.prems lt by auto
  then show ?case
    using here lt by (simp add: kb_loop_step_no_match polls_step)
qed

lemma kb_loop_exhausts:
  assumes "\<forall>j. a \<le> j \<and> j < max_attempts \<longrightarrow> \<not> highlight_matches page tx j \<and> poll_returns page j"
    and "a \<le> max_attempts"
  shows "kb_loop page tx a = (Exhausted, polls a max_attempts)"
  using assms
proof (induction "max_attempts - a" arbitrary: a)
  case 0
  then have "a = max_attempts" by simp
  then show ?case
    by (subst kb_loop.simps) (simp add: polls_def)
next
  case (Suc n)
  then have lt: "a < max_attempts" by simp
  with Suc.prems have here: "\<not> highlight_matches page tx a" "poll_returns page a"
    by auto
  have "kb_loop page tx (Suc a) = (Exhausted, polls (Suc a) max_attempts)"
    using Suc.hyps(1) [of "Suc a"] Suc.hyps(2) Suc.prems lt by auto
  then show ?case
    using here lt by (simp add: kb_loop_step_no_match polls_step)
qed

lemma arrow_not_enter: "arrow_at k \<noteq> Enter"
  by (simp add: arrow_at_def)

lemma kb_loop_cases:
  assumes "a < max_attempts"
  shows "(\<exists>e. kb_loop page tx a = (Raised e, [ReadCurrentOption]))
     \<or> (highlight_matches page tx a
          \<and> (\<exists>e. kb_loop page tx a = (e, [ReadCurrentOption, Press Enter])
                \<and> (e = Selected a \<or> (\<exists>m. e = Raised m))))
     \<or> (\<not> highlight_matches page tx a
          \<and> (\<exists>e. kb_loop page tx a = (Raised e, [ReadCurrentOption, Press (arrow_at a)])))
     \<or> (\<not> highlight_matches page tx a
          \<and> kb_loop page tx a =
              (fst (kb_loop page tx (Suc a)),
               [ReadCurrentOption, Press (arrow_at a)] @ snd (kb_loop page tx (Suc a))))"
  using assms
  by (subst (1 2 3 4) kb_loop.simps)
    (auto simp: highlight_matches_def truthy_def Let_def
      split: sum.splits option.splits prod.splits)

lemma kb_loop_general:
  "length (filter (\<lambda>e. e = ReadCurrentOption) (snd (kb_loop page tx a))) \<le> max_attempts - a
   \<and> (Press Enter \<in> set (snd (kb_loop page tx a))
        \<longrightarrow> (\<exists>k. a \<le> k \<and> k < max_attempts \<and> highlight_matches page tx k))
   \<and> (\<forall>k. fst (kb_loop page tx a) = Selected k
        \<longrightarrow> a \<le> k \<and> k < max_attempts \<and> highlight_matches page tx k
          \<and> snd (kb_loop page tx a) \<noteq> [] \<and> last (snd (kb_loop page tx a)) = Press Enter)"
proof (induction "max_attempts - a" arbitrary: a)
  case 0
  then have "\<not> a < max_attempts" by simp
  then have "kb_loop page tx a = (Exhausted, [])"
    by (subst kb_loop.simps) simp
  then show ?case by simp
next
  case (Suc n)
  then have lt: "a < max_attempts" by simp
  have IH: "length (filter (\<lambda>e. e = ReadCurrentOption) (snd (kb_loop page tx (Suc a))))
        \<le> max_attempts - Suc a
   \<and> (Press Enter \<in> set (snd (kb_loop page tx (Suc a)))
        \<longrightarrow> (\<exists>k. Suc a \<le> k \<and> k < max_attempts \<and> highlight_matches page tx k))
   \<and> (\<forall>k. fst (kb_loop page tx (Suc a)) = Selected k
        \<longrightarrow> Suc a \<le> k \<and> k < max_attempts \<and> highlight_matches page tx k
          \<and> snd (kb_loop page tx (Suc a)) \<noteq> []
          \<and> last (snd (kb_loop page tx (Suc a))) = Press Enter)"
    using Suc.hyps(1) [of "Suc a"] Suc.hyps(2) by simp
  consider
      (raised) e where "kb_loop page tx a = (Raised e, [ReadCurrentOption])"
    | (matched) e where "highlight_matches page tx a"
        "kb_loop page tx a = (e, [ReadCurrentOption, Press Enter])"
        "e = Selected a \<or> (\<exists>m. e = Raised m)"
    | (press_raised) e where
        "kb_loop page tx a = (Raised e, [ReadCurrentOption, Press (arrow_at a)])"
    | (next_poll) "kb_loop page tx a =
              (fst (kb_loop page tx (Suc a)),
               [ReadCurrentOption, Press (arrow_at a)] @ snd (kb_loop page tx (Suc a)))"
    using kb_loop_cases [OF lt, of page tx] by blast
  then show ?case
  proof cases
    case raised
    then show ?thesis using lt by simp
  next
    case matched
    then show ?thesis using lt by auto
  next
    case press_raised
    then show ?thesis using lt arrow_not_enter [of a] by auto
  next
    case step: next_poll
    have c1: "length (filter (\<lambda>e. e = ReadCurrentOption) (snd (kb_loop page tx a)))
        \<le> max_attempts - a"
      using IH [THEN conjunct1] lt by (simp add: step)
    have c2: "Press Enter \<in> set (snd (kb_loop page tx a))
        \<longrightarrow> (\<exists>k. a \<le> k \<and> k < max_attempts \<and> highlight_matches page tx k)"
      using IH arrow_not_enter [of a] by (auto simp: step intro: Suc_leD)
    have c3: "\<forall>k. fst (kb_loop page tx a) = Selected k
        \<longrightarrow> a \<le> k \<and> k < max_attempts \<and> highlight_matches page tx k
          \<and> snd (kb_loop page tx a) \<noteq> [] \<and> last (snd (kb_loop page tx a)) = Press Enter"
      using IH by (auto simp: step intro: Suc_leD)
    from c1 c2 c3 show ?thesis by blast
  qed
qed

lemma pressed_polls: "pressed (polls 0 30) = replicate 15 ArrowDown @ replicate 15 ArrowUp"
proof -
  have "[0..<30] = [0,1,2,3,4,5,6,7,8,9,10,11,12,13,14,15,16,17,18,19,20,21,22,23,24,25,26,27,28,29]"
    by (simp add: upt_rec)
  then show ?thesis
    by (simp add: polls_def arrow_at_def max_attempts_def numeral_eq_Suc)
qed











text \<open>
  C7, as stated, fails in two places. When no highlighted text matches, the keys pressed
  by the keyboard stage are fifteen times ArrowDown and then fifteen times ArrowUp, which
  do not alternate. And an empty highlighted text contains the empty target, yet Enter is
  not pressed for it.
\<close>

theorem keyboard_nav_keys_counterexample:
  "pressed (snd (keyboard_nav never_matching_dropdown ''Yes''))
     = replicate 15 ArrowDown @ replicate 15 ArrowUp
   \<and> \<not> alternating (pressed (snd (keyboard_nav never_matching_dropdown ''Yes'')))
   \<and> contains_ignoring_case [] []
   \<and> dd_current_option empty_highlight_dropdown 0 = Inr (Some [])
   \<and> Press Enter \<notin> set (snd (keyboard_nav empty_highlight_dropdown []))"
proof -
  have no: "\<forall>j. 0 \<le> j \<and> j < max_attempts
      \<longrightarrow> \<not> highlight_matches never_matching_dropdown ''Yes'' j
        \<and> poll_returns never_matching_dropdown j"
    by (simp add: highlight_matches_def poll_returns_def never_matching_dropdown_def
        quiet_dropdown_def lower_def lower_char_def)
  have loop: "kb_loop never_matching_dropdown ''Yes'' 0 = (Exhausted, polls 0 max_attempts)"
    using no by (rule kb_loop_exhausts) simp
  have keys: "pressed (snd (keyboard_nav never_matching_dropdown ''Yes''))
      = replicate 15 ArrowDown @ replicate 15 ArrowUp"
  proof -
    have "dd_focus_click never_matching_dropdown = None"
      "dd_type_first_chars never_matching_dropdown (take 3 ''Yes'') = None"
      by (simp_all add: never_matching_dropdown_def quiet_dropdown_def)
    then show ?thesis
      using pressed_polls by (simp add: keyboard_nav_def loop Let_def max_attempts_def)
  qed
  have not_alt: "\<not> alternating (replicate 15 ArrowDown @ replicate 15 ArrowUp)"
    by (simp add: numeral_eq_Suc)
  have empty: "\<forall>j. 0 \<le> j \<and> j < max_attempts
      \<longrightarrow> \<not> highlight_matches empty_highlight_dropdown [] j
        \<and> poll_returns empty_highlight_dropdown j"
    by (simp add: highlight_matches_def poll_returns_def empty_highlight_dropdown_def
        quiet_dropdown_def)
  have loop': "kb_loop empty_highlight_dropdown [] 0 = (Exhausted, polls 0 max_attempts)"
    using empty by (rule kb_loop_exhausts) simp
  have no_enter: "Press Enter \<notin> set (snd (keyboard_nav empty_highlight_dropdown []))"
  proof -
    have "dd_focus_click empty_highlight_dropdown = None"
      "dd_type_first_chars empty_highlight_dropdown (take 3 []) = None"
      by (simp_all add: empty_highlight_dropdown_def quiet_dropdown_def)
    then show ?thesis
      by (auto simp: keyboard_nav_def loop' Let_def polls_def arrow_at_def
          split: if_splits)
  qed
  have "contains_ignoring_case [] []"
    by (simp add: contains_ignoring_case_def lower_def)
  moreover have "dd_current_option empty_highlight_dropdown 0 = Inr (Some [])"
    by (simp add: empty_highlight_dropdown_def quiet_dropdown_def)
  ultimately show ?thesis
    using keys not_alt no_enter by simp
qed

text \<open>
  C7, amended. The keyboard stage clicks the control and types the first 3 characters of
  the target. It then polls at most 30 times; each poll first reads the highlighted
  option's text and then presses one key: Enter when the text is not empty and contains
  the target ignoring case, which ends the stage with a success, and otherwise ArrowDown
  in the first 15 polls and ArrowUp in the last 15 (the presses do not alternate). Enter
  is pressed only on a poll that matches, and a success is reported only after Enter.
  When no call raises, the stage's calls are exactly: the click, the typing, a read and
  an arrow press for every poll before the first match, and the read and Enter of the
  first match, or all 30 reads and arrow presses and no success when no poll matches.
\<close>

theorem keyboard_nav_stage:
  "(dd_focus_click page = None
      \<longrightarrow> take 2 (snd (keyboard_nav page tx)) = [ClickHandle, TypeHandle (take 3 tx)])
   \<and> length (filter (\<lambda>e. e = ReadCurrentOption) (snd (keyboard_nav page tx))) \<le> 30
   \<and> (Press Enter \<in> set (snd (keyboard_nav page tx))
        \<longrightarrow> (\<exists>k<30. highlight_matches page tx k))
   \<and> (\<forall>r. fst (keyboard_nav page tx) = Some r
        \<longrightarrow> is_success r \<and> last (snd (keyboard_nav page tx)) = Press Enter)
   \<and> (\<forall>k. dd_focus_click page = None \<and> dd_type_first_chars page (take 3 tx) = None
          \<and> k < 30
          \<and> (\<forall>j<k. \<not> highlight_matches page tx j \<and> poll_returns page j)
          \<and> highlight_matches page tx k \<and> dd_press page k Enter = None
        \<longrightarrow> keyboard_nav page tx =
             (Some (content_result (selected_message tx k) True),
              [ClickHandle, TypeHandle (take 3 tx)] @ polls 0 k
                @ [ReadCurrentOption, Press Enter]))
   \<and> (dd_focus_click page = None \<and> dd_type_first_chars page (take 3 tx) = None
          \<and> (\<forall>j<30. \<not> highlight_matches page tx j \<and> poll_returns page j)
        \<longrightarrow> keyboard_nav page tx = (None, [ClickHandle, TypeHandle (take 3 tx)] @ polls 0 30))
   \<and> pressed (polls 0 30) = replicate 15 ArrowDown @ replicate 15 ArrowUp"
proof -
  note g = kb_loop_general [of page tx 0]
  obtain e evs where loop: "kb_loop page tx 0 = (e, evs)"
    by (cases "kb_loop page tx 0")
  have c1: "dd_focus_click page = None
      \<longrightarrow> take 2 (snd (keyboard_nav page tx)) = [ClickHandle, TypeHandle (take 3 tx)]"
    by (auto simp: keyboard_nav_def Let_def split: option.splits prod.splits kb_end.splits)
  have c2: "length (filter (\<lambda>e. e = ReadCurrentOption) (snd (keyboard_nav page tx))) \<le> 30"
    using g [THEN conjunct1]
    by (auto simp: keyboard_nav_def loop Let_def max_attempts_def
        split: option.splits kb_end.splits)
  have c3: "Press Enter \<in> set (snd (keyboard_nav page tx))
        \<longrightarrow> (\<exists>k<30. highlight_matches page tx k)"
    using g [THEN conjunct2, THEN conjunct1]
    by (auto simp: keyboard_nav_def loop Let_def max_attempts_def
        split: option.splits kb_end.splits)
  have c4: "\<forall>r. fst (keyboard_nav page tx) = Some r
        \<longrightarrow> is_success r \<and> last (snd (keyboard_nav page tx)) = Press Enter"
    using g [THEN conjunct2, THEN conjunct2]
    by (auto simp: keyboard_nav_def loop Let_def split: option.splits kb_end.splits)
  have c5: "\<forall>k. dd_focus_click page = None \<and> dd_type_first_chars page (take 3 tx) = None
          \<and> k < 30
          \<and> (\<forall>j<k. \<not> highlight_matches page tx j \<and> poll_returns page j)
          \<and> highlight_matches page tx k \<and> dd_press page k Enter = None
        \<longrightarrow> keyboard_nav page tx =
             (Some (content_result (selected_message tx k) True),
              [ClickHandle, TypeHandle (take 3 tx)] @ polls 0 k
                @ [ReadCurrentOption, Press Enter])"
  proof (intro allI impI)
    fix k
    assume h: "dd_focus_click page = None \<and> dd_type_first_chars page (take 3 tx) = None
          \<and> k < 30
          \<and> (\<forall>j<k. \<not> highlight_matches page tx j \<and> poll_returns page j)
          \<and> highlight_matches page tx k \<and> dd_press page k Enter = None"
    then have "kb_loop page tx 0 = (Selected k, polls 0 k @ [ReadCurrentOption, Press Enter])"
      by (intro kb_loop_selects) (auto simp: max_attempts_def)
    with h show "keyboard_nav page tx =
             (Some (content_result (selected_message tx k) True),
              [ClickHandle, TypeHandle (take 3 tx)] @ polls 0 k
                @ [ReadCurrentOption, Press Enter])"
      by (simp add: keyboard_nav_def selected_message_def Let_def)
  qed
  have c6: "dd_focus_click page = None \<and> dd_type_first_chars page (take 3 tx) = None
          \<and> (\<forall>j<30. \<not> highlight_matches page tx j \<and> poll_returns page j)
        \<longrightarrow> keyboard_nav page tx = (None, [ClickHandle, TypeHandle (take 3 tx)] @ polls 0 30)"
  proof
    assume h: "dd_focus_click page = None \<and> dd_type_first_chars page (take 3 tx) = None
          \<and> (\<forall>j<30. \<not> highlight_matches page tx j \<and> poll_returns page j)"
    then have "kb_loop page tx 0 = (Exhausted, polls 0 max_attempts)"
      by (intro kb_loop_exhausts) (auto simp: max_attempts_def)
    with h show "keyboard_nav page tx
        = (None, [ClickHandle, TypeHandle (take 3 tx)] @ polls 0 30)"
      by (simp add: keyboard_nav_def Let_def max_attempts_def)
  qed
  from c1 c2 c3 c4 c5 c6 pressed_polls show ?thesis
    by blast
qed

theorem keyboard_nav_stage_witness:
  "keyboard_nav third_poll_dropdown ''Yes'' =
     (Some (content_result ''Selected option 'Yes' using keyboard nav after 3 attempts'' True),
      [ClickHandle, TypeHandle ''Yes'',
       ReadCurrentOption, Press ArrowDown, ReadCurrentOption, Press ArrowDown,
       ReadCurrentOption, Press Enter])
   \<and> length (filter (\<lambda>e. e = ReadCurrentOption) (snd (keyboard_nav third_poll_dropdown ''Yes'')))
       \<le> 30"
proof -
  have before: "\<forall>j<2. \<not> highlight_matches third_poll_dropdown ''Yes'' j
      \<and> poll_returns third_poll_dropdown j"
  proof (intro allI impI)
    fix j :: nat
    assume "j < 2"
    then have "j = 0 \<or> j = 1" by auto
    then show "\<not> highlight_matches third_poll_dropdown ''Yes'' j
        \<and> poll_returns third_poll_dropdown j"
      by (auto simp: highlight_matches_def poll_returns_def third_poll_dropdown_def
          quiet_dropdown_def lower_def lower_char_def)
  qed
  have here: "highlight_matches third_poll_dropdown ''Yes'' 2"
    by (simp add: highlight_matches_def third_poll_dropdown_def quiet_dropdown_def
        lower_def lower_char_def)
  have quiet: "dd_focus_click third_poll_dropdown = None
      \<and> dd_type_first_chars third_poll_dropdown (take 3 ''Yes'') = None
      \<and> dd_press third_poll_dropdown 2 Enter = None"
    by (simp add: third_poll_dropdown_def quiet_dropdown_def)
  note stage = keyboard_nav_stage [of third_poll_dropdown "''Yes''"]
  have "keyboard_nav third_poll_dropdown ''Yes'' =
      (Some (content_result (selected_message ''Yes'' 2) True),
       [ClickHandle, TypeHandle (take 3 ''Yes'')] @ polls 0 2
         @ [ReadCurrentOption, Press Enter])"
    using stage before here quiet by simp
  moreover have "polls 0 2
      = [ReadCurrentOption, Press ArrowDown, ReadCurrentOption, Press ArrowDown]"
    by (simp add: polls_def arrow_at_def max_attempts_def upt_rec)
  moreover have "selected_message ''Yes'' 2
      = ''Selected option 'Yes' using keyboard nav after 3 attempts''"
    by (simp add: selected_message_def sq_def str_int_def digit_char_def)
  ultimately show ?thesis
    using stage by simp
qed




section \<open>Theorems: the form progress loop\<close>




















end
